theory Spec2Isabelle
  imports Complex_Main "HOL-Library.Product_Lexorder" "HOL-Library.Sublist"
begin

section \<open>Fuel-stop planning along a route (routing/route/routing.py)\<close>

text \<open>
  The module plans refuelling stops along a driving route.  Python floats are
  modelled as real numbers (exact arithmetic, no NaN, no infinities); the
  one infinite value of the source, the initial \<open>float("inf")\<close> of the
  nearest-point search, is the \<open>None\<close> of an option.  The geodesic distance
  in miles comes from the \<open>geopy\<close> library, which is not part of the module:
  every function that measures takes it as the parameter \<open>geodesic\<close>.
\<close>

subsection \<open>Constants\<close>

definition GAS_EFFICIENCY :: real where "GAS_EFFICIENCY = 10"
definition VEHICLE_RANGE :: real where "VEHICLE_RANGE = 500"
definition WAYPOINT_INTERVAL :: real where "WAYPOINT_INTERVAL = 450"
definition GAS_SEARCH_RADIUS :: real where "GAS_SEARCH_RADIUS = 20"
definition DETOUR_ALLOWANCE :: real where "DETOUR_ALLOWANCE = 10"
definition HIGHWAY_BONUS :: real where "HIGHWAY_BONUS = 5 / 100"

subsection \<open>Data classes\<close>

record Coordinates =
  latitude :: real
  longitude :: real

record GasStop =
  truckstop_id :: string
  name :: string
  address :: string
  city :: string
  state :: string
  coordinates :: Coordinates
  price_per_gallon :: real

record Route =
  origin_coordinates :: Coordinates
  destination_coordinates :: Coordinates
  distance :: real
  geometry :: "Coordinates list"
  bbox :: "real list"

record RouteSegment =
  start_coordinates :: Coordinates
  end_coordinates :: Coordinates
  distance :: real
  gas_needed_gallons :: real

datatype error = IndexError | ValueError

subsection \<open>Rounding to two decimals\<close>

text \<open>
  Python's \<open>round(x, 2)\<close> rounds the exact value of \<open>x\<close> to the nearest multiple
  of 0.01, a value exactly half way going to the even neighbour.
\<close>

definition round_half_even :: "real \<Rightarrow> int" where
  "round_half_even y =
     (let f = \<lfloor>y\<rfloor>; d = y - of_int f
      in if d < 1 / 2 then f
         else if 1 / 2 < d then f + 1
         else if even f then f else f + 1)"

definition round2 :: "real \<Rightarrow> real" where
  "round2 x = of_int (round_half_even (x * 100)) / 100"

subsection \<open>Total cost\<close>

text \<open>
  \<open>calculate_total_gas_cost\<close>: the loop runs over \<open>enumerate(segments)\<close> and
  adds a term only where \<open>segment_index < len(gas_stops)\<close>, so the read
  \<open>gas_stops[segment_index]\<close> is always in range.
\<close>

definition cost_step :: "GasStop list \<Rightarrow> real \<Rightarrow> nat \<times> RouteSegment \<Rightarrow> real" where
  "cost_step gas_stops total_cost ix =
     (if fst ix < length gas_stops
      then total_cost + gas_needed_gallons (snd ix) * price_per_gallon (gas_stops ! fst ix)
      else total_cost)"

definition calculate_total_gas_cost :: "RouteSegment list \<Rightarrow> GasStop list \<Rightarrow> real" where
  "calculate_total_gas_cost segments gas_stops =
     (if gas_stops = [] then 0
      else round2 (foldl (cost_step gas_stops) 0 (enumerate 0 segments)))"

subsection \<open>Cumulative distances and waypoints\<close>

text \<open>
  \<open>calculate_cumulative_distances\<close> starts from \<open>[0.0]\<close> and appends, for every
  index from 1, the last entry plus the distance from the previous point.
\<close>

definition calculate_cumulative_distances ::
  "(Coordinates \<Rightarrow> Coordinates \<Rightarrow> real) \<Rightarrow> Coordinates list \<Rightarrow> real list" where
  "calculate_cumulative_distances geodesic route_points =
     foldl (\<lambda>distances point_index.
              distances @ [last distances
                 + geodesic (route_points ! (point_index - 1)) (route_points ! point_index)])
           [0] [1..<length route_points]"

text \<open>
  \<open>find_point_at_distance\<close> returns at the first index of
  \<open>range(len(cumulative_distances) - 1)\<close> whose bracket holds the target.  The
  read \<open>route_points[distance_index]\<close> raises IndexError when the point list
  is too short for that index.
\<close>

definition in_bracket :: "real list \<Rightarrow> real \<Rightarrow> nat \<Rightarrow> bool" where
  "in_bracket cumulative_distances target_distance distance_index =
     (cumulative_distances ! distance_index \<le> target_distance
      \<and> target_distance \<le> cumulative_distances ! (distance_index + 1))"

definition find_point_at_distance ::
  "Coordinates list \<Rightarrow> real list \<Rightarrow> real \<Rightarrow> error + Coordinates option" where
  "find_point_at_distance route_points cumulative_distances target_distance =
     (case List.find (in_bracket cumulative_distances target_distance)
             [0..<length cumulative_distances - 1] of
        None \<Rightarrow> Inr None
      | Some distance_index \<Rightarrow>
          if distance_index < length route_points
          then Inr (Some (route_points ! distance_index))
          else Inl IndexError)"

text \<open>
  The \<open>while target_distance < total_distance\<close> loop of \<open>calculate_waypoints\<close>.
  A \<open>Coordinates\<close> object is always true in a condition, so
  \<open>if waypoint_coords\<close> only tests for \<open>None\<close>.
\<close>

function waypoints_loop ::
  "Coordinates list \<Rightarrow> real list \<Rightarrow> real \<Rightarrow> real \<Rightarrow> Coordinates list
     \<Rightarrow> error + Coordinates list" where
  "waypoints_loop route_points cumulative_distances total_distance target_distance waypoints =
     (if target_distance < total_distance
      then (case find_point_at_distance route_points cumulative_distances target_distance of
              Inl e \<Rightarrow> Inl e
            | Inr waypoint_coords \<Rightarrow>
                waypoints_loop route_points cumulative_distances total_distance
                  (target_distance + WAYPOINT_INTERVAL)
                  (case waypoint_coords of
                     Some c \<Rightarrow> waypoints @ [c]
                   | None \<Rightarrow> waypoints))
      else Inr waypoints)"
  by pat_completeness auto
termination
proof (relation "measure (\<lambda>(ps, cs, total, target, ws). nat \<lceil>(total - target) / 450\<rceil>)")
  show "wf (measure (\<lambda>(ps, cs, total, target, ws). nat \<lceil>(total - target) / 450\<rceil>))"
    by simp
next
  fix route_points :: "Coordinates list" and cumulative_distances :: "real list"
    and total_distance target_distance :: real and waypoints :: "Coordinates list"
    and x2 :: "Coordinates option"
  assume lt: "target_distance < total_distance"
  have eq: "(total_distance - (target_distance + WAYPOINT_INTERVAL)) / 450
              = (total_distance - target_distance) / 450 - 1"
    by (simp add: WAYPOINT_INTERVAL_def field_simps)
  have pos: "0 < (total_distance - target_distance) / 450"
    using lt by simp
  then have "0 < \<lceil>(total_distance - target_distance) / 450\<rceil>"
    by linarith
  then have dec: "nat \<lceil>(total_distance - target_distance) / 450 - 1\<rceil>
               < nat \<lceil>(total_distance - target_distance) / 450\<rceil>"
    by linarith
  show "((route_points, cumulative_distances, total_distance,
                 target_distance + WAYPOINT_INTERVAL,
                 case x2 of None \<Rightarrow> waypoints | Some c \<Rightarrow> waypoints @ [c]),
               (route_points, cumulative_distances, total_distance, target_distance, waypoints))
              \<in> measure (\<lambda>(ps, cs, total, target, ws). nat \<lceil>(total - target) / 450\<rceil>)"
    unfolding in_measure prod.case eq by (rule dec)
qed

declare waypoints_loop.simps [simp del]

definition calculate_waypoints ::
  "(Coordinates \<Rightarrow> Coordinates \<Rightarrow> real) \<Rightarrow> Route \<Rightarrow> error + Coordinates list" where
  "calculate_waypoints geodesic route =
     (if Route.distance route \<le> VEHICLE_RANGE then Inr []
      else waypoints_loop (geometry route)
             (calculate_cumulative_distances geodesic (geometry route))
             (Route.distance route) WAYPOINT_INTERVAL [])"

text \<open>
  What one target distance adds to the waypoint list: the point found for it,
  or nothing.
\<close>

definition emitted :: "Coordinates list \<Rightarrow> real list \<Rightarrow> real \<Rightarrow> Coordinates list" where
  "emitted route_points cumulative_distances target_distance =
     (case find_point_at_distance route_points cumulative_distances target_distance of
        Inr (Some c) \<Rightarrow> [c]
      | _ \<Rightarrow> [])"

subsection \<open>Nearest route point\<close>

text \<open>
  Stage 1 of \<open>find_closest_route_point_index\<close> builds the pairs
  \<open>(euclidean_dist_squared, point_index)\<close>, sorts them (Python compares tuples
  lexicographically) and keeps the first ten.  Stage 2 walks those ten with
  \<open>best_index = 0\<close> and \<open>min_geodesic = inf\<close>, replacing both on a strictly
  smaller geodesic distance.  Every \<open>point_index\<close> comes from
  \<open>enumerate(route_points)\<close>, so \<open>route_points[point_index]\<close> is in range.
\<close>

definition euclidean_dist_squared :: "Coordinates \<Rightarrow> Coordinates \<Rightarrow> real" where
  "euclidean_dist_squared target_point route_point =
     (let lat_diff = latitude target_point - latitude route_point;
          lon_diff = longitude target_point - longitude route_point
      in lat_diff * lat_diff + lon_diff * lon_diff)"

definition candidates :: "Coordinates \<Rightarrow> Coordinates list \<Rightarrow> (real \<times> nat) list" where
  "candidates target_point route_points =
     map (\<lambda>(point_index, route_point).
            (euclidean_dist_squared target_point route_point, point_index))
         (enumerate 0 route_points)"

definition top_candidates :: "Coordinates \<Rightarrow> Coordinates list \<Rightarrow> (real \<times> nat) list" where
  "top_candidates target_point route_points = take 10 (sort (candidates target_point route_points))"

definition closest_step ::
  "(Coordinates \<Rightarrow> Coordinates \<Rightarrow> real) \<Rightarrow> Coordinates \<Rightarrow> Coordinates list
     \<Rightarrow> nat \<times> real option \<Rightarrow> real \<times> nat \<Rightarrow> nat \<times> real option" where
  "closest_step geodesic target_point route_points best cand =
     (let geodesic_dist = geodesic target_point (route_points ! snd cand)
      in if (case snd best of None \<Rightarrow> True | Some min_geodesic \<Rightarrow> geodesic_dist < min_geodesic)
         then (snd cand, Some geodesic_dist)
         else best)"

definition find_closest_route_point_index ::
  "(Coordinates \<Rightarrow> Coordinates \<Rightarrow> real) \<Rightarrow> Coordinates \<Rightarrow> Coordinates list \<Rightarrow> nat" where
  "find_closest_route_point_index geodesic target_point route_points =
     fst (foldl (closest_step geodesic target_point route_points) (0, None)
            (top_candidates target_point route_points))"

subsection \<open>Segments\<close>

text \<open>
  \<open>calculate_route_segment_distance\<close> reads the cumulative table at the two
  nearest indices; a table shorter than an index raises IndexError.
\<close>

definition calculate_route_segment_distance ::
  "(Coordinates \<Rightarrow> Coordinates \<Rightarrow> real) \<Rightarrow> Coordinates \<Rightarrow> Coordinates
     \<Rightarrow> Coordinates list \<Rightarrow> real list \<Rightarrow> error + real" where
  "calculate_route_segment_distance geodesic start_point end_point route_points
       cumulative_distances =
     (let start_index = find_closest_route_point_index geodesic start_point route_points;
          end_index = find_closest_route_point_index geodesic end_point route_points
      in if end_index < length cumulative_distances \<and> start_index < length cumulative_distances
         then Inr (cumulative_distances ! end_index - cumulative_distances ! start_index
                     + DETOUR_ALLOWANCE)
         else Inl IndexError)"

definition make_segment ::
  "(Coordinates \<Rightarrow> Coordinates \<Rightarrow> real) \<Rightarrow> Route \<Rightarrow> real list \<Rightarrow> Coordinates \<Rightarrow> Coordinates
     \<Rightarrow> error + RouteSegment" where
  "make_segment geodesic route cumulative_distances start_point end_point =
     (case calculate_route_segment_distance geodesic start_point end_point (geometry route)
             cumulative_distances of
        Inl e \<Rightarrow> Inl e
      | Inr route_distance \<Rightarrow>
          Inr \<lparr>start_coordinates = start_point, end_coordinates = end_point,
               distance = round2 route_distance,
               gas_needed_gallons = round2 (route_distance / GAS_EFFICIENCY)\<rparr>)"

fun segments_loop ::
  "(Coordinates \<Rightarrow> Coordinates \<Rightarrow> real) \<Rightarrow> Route \<Rightarrow> real list \<Rightarrow> Coordinates list
     \<Rightarrow> nat list \<Rightarrow> RouteSegment list \<Rightarrow> error + RouteSegment list" where
  "segments_loop geodesic route cumulative_distances all_points [] segments = Inr segments"
| "segments_loop geodesic route cumulative_distances all_points (segment_index # rest) segments =
     (case make_segment geodesic route cumulative_distances
             (all_points ! segment_index) (all_points ! (segment_index + 1)) of
        Inl e \<Rightarrow> Inl e
      | Inr segment \<Rightarrow>
          segments_loop geodesic route cumulative_distances all_points rest
            (segments @ [segment]))"

definition all_points :: "Route \<Rightarrow> GasStop list \<Rightarrow> Coordinates list" where
  "all_points route gas_stops =
     [origin_coordinates route] @ map coordinates gas_stops @ [destination_coordinates route]"

definition calculate_route_segments ::
  "(Coordinates \<Rightarrow> Coordinates \<Rightarrow> real) \<Rightarrow> Route \<Rightarrow> GasStop list
     \<Rightarrow> error + RouteSegment list" where
  "calculate_route_segments geodesic route gas_stops =
     segments_loop geodesic route
       (calculate_cumulative_distances geodesic (geometry route))
       (all_points route gas_stops)
       [0..<length (all_points route gas_stops) - 1] []"

subsection \<open>Station objects and the process-wide catalog\<close>

text \<open>
  A \<open>GasStop\<close> is a mutable object, and the same object is reachable from the
  module-level list \<open>GAS_STOPS\<close>, from the bounding-box filtered list, from
  every per-waypoint candidate list and from the returned result.  The
  objects therefore live in a store indexed by reference, and all those lists
  are lists of references.  \<open>process\<close> is the state of the Python process that
  the pipeline reads and writes: the store, the next free reference and the
  global \<open>GAS_STOPS\<close> (initially the empty list).
\<close>

record process =
  objects :: "nat \<Rightarrow> GasStop"
  next_ref :: nat
  GAS_STOPS :: "nat list"

text \<open>
  \<open>get_gas_stops\<close> returns the global list when it is non-empty; otherwise it
  builds one fresh object per record of the dataset, in order, stores the
  list in the global and returns it.  The parsed contents of the dataset file
  are the argument \<open>gas_data\<close>.
\<close>

definition get_gas_stops :: "GasStop list \<Rightarrow> process \<Rightarrow> nat list \<times> process" where
  "get_gas_stops gas_data p =
     (if GAS_STOPS p \<noteq> [] then (GAS_STOPS p, p)
      else
        (let refs = [next_ref p..<next_ref p + length gas_data]
         in (refs,
             p\<lparr>objects := (\<lambda>r. if next_ref p \<le> r \<and> r < next_ref p + length gas_data
                                 then gas_data ! (r - next_ref p)
                                 else objects p r),
               next_ref := next_ref p + length gas_data,
               GAS_STOPS := refs\<rparr>)))"

text \<open>
  \<open>get_nearby_gas_stops\<close> first unpacks \<open>route.bbox\<close> into four names, which
  raises ValueError for any other number of entries, then keeps the stations
  inside the box.
\<close>

definition in_bbox :: "real \<Rightarrow> real \<Rightarrow> real \<Rightarrow> real \<Rightarrow> GasStop \<Rightarrow> bool" where
  "in_bbox min_lon min_lat max_lon max_lat gas_stop =
     (let lat = latitude (coordinates gas_stop);
          lon = longitude (coordinates gas_stop)
      in min_lat \<le> lat \<and> lat \<le> max_lat \<and> min_lon \<le> lon \<and> lon \<le> max_lon)"

definition get_nearby_gas_stops ::
  "Route \<Rightarrow> GasStop list \<Rightarrow> process \<Rightarrow> error + nat list \<times> process" where
  "get_nearby_gas_stops route gas_data p =
     (case bbox route of
        [min_lon, min_lat, max_lon, max_lat] \<Rightarrow>
          (let (refs, p') = get_gas_stops gas_data p
           in Inr (filter (\<lambda>r. in_bbox min_lon min_lat max_lon max_lat (objects p' r)) refs, p'))
      | _ \<Rightarrow> Inl ValueError)"

subsection \<open>Cheapest stop\<close>

text \<open>
  \<open>select_cheapest_gas_stop\<close> first walks the candidates and subtracts
  \<open>HIGHWAY_BONUS\<close> from the price of every object whose address contains
  \<open>"I-"\<close>, in place; then \<open>min(..., key=price, default=None)\<close> returns the
  first candidate of least price.
\<close>

definition apply_bonus :: "(nat \<Rightarrow> GasStop) \<Rightarrow> nat \<Rightarrow> (nat \<Rightarrow> GasStop)" where
  "apply_bonus h r =
     (if sublist ''I-'' (address (h r))
      then h(r := (h r)\<lparr>price_per_gallon := price_per_gallon (h r) - HIGHWAY_BONUS\<rparr>)
      else h)"

definition min_step :: "(nat \<Rightarrow> GasStop) \<Rightarrow> nat \<Rightarrow> nat \<Rightarrow> nat" where
  "min_step h best r =
     (if price_per_gallon (h r) < price_per_gallon (h best) then r else best)"

definition min_by_price :: "(nat \<Rightarrow> GasStop) \<Rightarrow> nat list \<Rightarrow> nat option" where
  "min_by_price h candidate_stops =
     (case candidate_stops of
        [] \<Rightarrow> None
      | r # rest \<Rightarrow> Some (foldl (min_step h) r rest))"

definition select_cheapest_gas_stop ::
  "nat list \<Rightarrow> (nat \<Rightarrow> GasStop) \<Rightarrow> nat option \<times> (nat \<Rightarrow> GasStop)" where
  "select_cheapest_gas_stop candidate_stops h =
     (let h' = foldl apply_bonus h candidate_stops
      in (min_by_price h' candidate_stops, h'))"

subsection \<open>Stops per waypoint\<close>

text \<open>
  The body of the \<open>for waypoint in waypoints\<close> loop of
  \<open>find_optimal_gas_stops\<close>, on the loop state \<open>(optimal_stops,
  all_nearby_stations, store)\<close>.  A \<open>GasStop\<close> object is always true in a
  condition, so \<open>if best_stop\<close> only tests for \<open>None\<close>.
\<close>

definition nearby_stops ::
  "(Coordinates \<Rightarrow> Coordinates \<Rightarrow> real) \<Rightarrow> (nat \<Rightarrow> GasStop) \<Rightarrow> nat list \<Rightarrow> Coordinates
     \<Rightarrow> nat list" where
  "nearby_stops geodesic h filtered_gas_stops waypoint =
     filter (\<lambda>r. geodesic waypoint (coordinates (h r)) \<le> GAS_SEARCH_RADIUS) filtered_gas_stops"

definition waypoint_step ::
  "(Coordinates \<Rightarrow> Coordinates \<Rightarrow> real) \<Rightarrow> nat list
     \<Rightarrow> nat list \<times> nat list list \<times> (nat \<Rightarrow> GasStop) \<Rightarrow> Coordinates
     \<Rightarrow> nat list \<times> nat list list \<times> (nat \<Rightarrow> GasStop)" where
  "waypoint_step geodesic filtered_gas_stops st waypoint =
     (case st of (optimal_stops, all_nearby_stations, h) \<Rightarrow>
        (let near = nearby_stops geodesic h filtered_gas_stops waypoint;
             sel = select_cheapest_gas_stop near h
         in ((case fst sel of
                Some best_stop \<Rightarrow> optimal_stops @ [best_stop]
              | None \<Rightarrow> optimal_stops),
             all_nearby_stations @ [near],
             snd sel)))"

definition find_optimal_gas_stops ::
  "(Coordinates \<Rightarrow> Coordinates \<Rightarrow> real) \<Rightarrow> Coordinates list \<Rightarrow> Route \<Rightarrow> GasStop list
     \<Rightarrow> process \<Rightarrow> error + (nat list \<times> nat list list) \<times> process" where
  "find_optimal_gas_stops geodesic waypoints route gas_data p =
     (case get_nearby_gas_stops route gas_data p of
        Inl e \<Rightarrow> Inl e
      | Inr (filtered_gas_stops, p') \<Rightarrow>
          (case foldl (waypoint_step geodesic filtered_gas_stops) ([], [], objects p') waypoints of
             (optimal_stops, all_nearby_stations, h) \<Rightarrow>
               Inr ((optimal_stops, all_nearby_stations), p'\<lparr>objects := h\<rparr>)))"

subsection \<open>The pipeline\<close>

text \<open>
  \<open>optimize_route\<close> from the point where \<open>get_route\<close> (two HTTP services) has
  returned the route.  The result holds references; \<open>calculate_route_segments\<close>
  and \<open>calculate_total_gas_cost\<close> read the chosen objects as they are after
  the whole waypoint loop.
\<close>

record OptimalRoute =
  total_distance :: real
  total_gas_cost :: real
  gas_stops :: "nat list"
  route_coordinates :: "Coordinates list"
  segments :: "RouteSegment list"
  nearby_stations :: "nat list list"

definition optimize_route ::
  "(Coordinates \<Rightarrow> Coordinates \<Rightarrow> real) \<Rightarrow> Route \<Rightarrow> GasStop list \<Rightarrow> process
     \<Rightarrow> error + OptimalRoute \<times> process" where
  "optimize_route geodesic route gas_data p =
     (case calculate_waypoints geodesic route of
        Inl e \<Rightarrow> Inl e
      | Inr waypoints \<Rightarrow>
     (case find_optimal_gas_stops geodesic waypoints route gas_data p of
        Inl e \<Rightarrow> Inl e
      | Inr ((optimal_gas_stops, near), p') \<Rightarrow>
     (case calculate_route_segments geodesic route (map (objects p') optimal_gas_stops) of
        Inl e \<Rightarrow> Inl e
      | Inr segs \<Rightarrow>
          Inr (\<lparr>total_distance = Route.distance route,
                total_gas_cost =
                  calculate_total_gas_cost segs (map (objects p') optimal_gas_stops),
                gas_stops = optimal_gas_stops,
                route_coordinates = geometry route,
                segments = segs,
                nearby_stations = near\<rparr>, p'))))"

text \<open>The chosen stops of a result as the caller reads them in process state \<open>p\<close>.\<close>

definition chosen_stops :: "process \<Rightarrow> OptimalRoute \<Rightarrow> GasStop list" where
  "chosen_stops p res = map (objects p) (gas_stops res)"

section \<open>Sample data\<close>

text \<open>
  Concrete inputs for the worked examples below.  \<open>sample_geodesic\<close> stands
  in for the library's geodesic there: 69 miles per degree of latitude
  difference plus 69 miles per degree of longitude difference, the longitude
  difference taken the short way round.  The examples rely only on what it
  shares with the true geodesic: a point is at distance 0 from itself, two
  points ten or twenty degrees of longitude apart at latitude 35 are more than
  450 respectively 900 miles apart, and two points on the equator two degrees
  east and two degrees west of a third are equally far from it.
\<close>

definition sample_geodesic :: "Coordinates \<Rightarrow> Coordinates \<Rightarrow> real" where
  "sample_geodesic a b =
     69 * (\<bar>latitude a - latitude b\<bar>
           + (let d = \<bar>longitude a - longitude b\<bar> in min d (360 - d)))"

definition point_A :: Coordinates where "point_A = \<lparr>latitude = 35, longitude = - 100\<rparr>"

definition point_M :: Coordinates where "point_M = \<lparr>latitude = 35, longitude = - 96\<rparr>"

definition point_B :: Coordinates where "point_B = \<lparr>latitude = 35, longitude = - 90\<rparr>"

definition point_C :: Coordinates where "point_C = \<lparr>latitude = 35, longitude = - 80\<rparr>"

definition point_T :: Coordinates where "point_T = \<lparr>latitude = 0, longitude = 179\<rparr>"

definition point_E :: Coordinates where "point_E = \<lparr>latitude = 0, longitude = - 179\<rparr>"

definition point_W :: Coordinates where "point_W = \<lparr>latitude = 0, longitude = 177\<rparr>"

definition station_hwy :: GasStop where
  "station_hwy = \<lparr>truckstop_id = ''1'', name = ''Plaza'', address = ''123 I-40 Exit 5'',
     city = ''Shamrock'', state = ''TX'', coordinates = point_A, price_per_gallon = 350 / 100\<rparr>"

definition station_local :: GasStop where
  "station_local = \<lparr>truckstop_id = ''2'', name = ''Corner'', address = ''45 Main St'',
     city = ''Shamrock'', state = ''TX'', coordinates = point_A, price_per_gallon = 348 / 100\<rparr>"

definition station_far :: GasStop where
  "station_far = \<lparr>truckstop_id = ''3'', name = ''Depot'', address = ''9 River Rd'',
     city = ''Memphis'', state = ''TN'', coordinates = point_B, price_per_gallon = 360 / 100\<rparr>"

text \<open>
  A store with the highway station at reference 0 and the local station
  everywhere else, and a process that has not loaded the catalog yet (the
  contents of unused store cells do not matter).
\<close>

definition sample_store :: "nat \<Rightarrow> GasStop" where
  "sample_store r = (if r = 0 then station_hwy else station_local)"

definition fresh_process :: process where
  "fresh_process = \<lparr>objects = (\<lambda>r. station_local), next_ref = 0, GAS_STOPS = []\<rparr>"

text \<open>
  Three routes with two-vertex geometry: 276 miles (within range), 600 miles
  (one waypoint) and 1200 miles (two waypoints, both snapped to the first
  vertex).
\<close>

definition route_short :: Route where
  "route_short = \<lparr>origin_coordinates = point_A, destination_coordinates = point_M,
     distance = 276, geometry = [point_A, point_M], bbox = [- 100, 35, - 96, 35]\<rparr>"

definition route_one :: Route where
  "route_one = \<lparr>origin_coordinates = point_A, destination_coordinates = point_B,
     distance = 600, geometry = [point_A, point_B], bbox = [- 100, 35, - 90, 35]\<rparr>"

definition route_two :: Route where
  "route_two = \<lparr>origin_coordinates = point_A, destination_coordinates = point_C,
     distance = 1200, geometry = [point_A, point_C], bbox = [- 100, 35, - 80, 35]\<rparr>"

definition segment_near :: RouteSegment where
  "segment_near = \<lparr>start_coordinates = point_A, end_coordinates = point_A,
     distance = 10, gas_needed_gallons = 1\<rparr>"

definition segment_far :: RouteSegment where
  "segment_far = \<lparr>start_coordinates = point_A, end_coordinates = point_B,
     distance = 700, gas_needed_gallons = 70\<rparr>"

section \<open>Properties\<close>

subsection \<open>Rounding\<close>

lemma round2_zero: "round2 0 = 0"
  by (simp add: round2_def round_half_even_def)

lemma round_half_even_nonneg: "0 \<le> y \<Longrightarrow> 0 \<le> round_half_even y"
  by (simp add: round_half_even_def Let_def)

lemma round2_nonneg: "0 \<le> x \<Longrightarrow> 0 \<le> round2 x"
  by (simp add: round2_def round_half_even_nonneg)

subsection \<open>Total cost\<close>

lemma cost_step_pair:
  "cost_step stops acc (i, s) =
     (if i < length stops then acc + gas_needed_gallons s * price_per_gallon (stops ! i) else acc)"
  by (simp add: cost_step_def)

lemma foldl_cost_step:
  "foldl (cost_step stops) acc (enumerate n segs)
     = acc + (\<Sum>i<length segs. if n + i < length stops
                then gas_needed_gallons (segs ! i) * price_per_gallon (stops ! (n + i)) else 0)"
proof (induction segs arbitrary: acc n)
  case Nil
  then show ?case by simp
next
  case (Cons s segs)
  show ?case
    by (simp add: Cons.IH cost_step_pair sum.lessThan_Suc_shift del: sum.lessThan_Suc cong: if_cong)
qed

text \<open>
  Claim C1.  When there is exactly one more segment than chosen stops, the
  total cost is the sum, over the indices \<open>i\<close> of the chosen stops, of the
  fuel of segment \<open>i\<close> times the price of stop \<open>i\<close>, rounded to two decimals.
  The last segment is not priced: replacing it by any other segment \<open>s\<close>
  leaves the total unchanged.
\<close>

theorem total_cost_pairs_by_index:
  assumes "length segs = length stops + 1"
  shows "calculate_total_gas_cost segs stops
           = round2 (\<Sum>i<length stops. gas_needed_gallons (segs ! i) * price_per_gallon (stops ! i))
         \<and> calculate_total_gas_cost (butlast segs @ [s]) stops
             = calculate_total_gas_cost segs stops"
proof -
  have main: "calculate_total_gas_cost xs stops
           = round2 (\<Sum>i<length stops. gas_needed_gallons (xs ! i) * price_per_gallon (stops ! i))"
    if "length xs = length stops + 1" for xs
  proof (cases "stops = []")
    case True
    then show ?thesis by (simp add: calculate_total_gas_cost_def round2_zero)
  next
    case False
    then show ?thesis
      using that by (simp add: calculate_total_gas_cost_def foldl_cost_step)
  qed
  have len: "length (butlast segs @ [s]) = length stops + 1"
    using assms by simp
  have nth: "(butlast segs @ [s]) ! i = segs ! i" if "i < length stops" for i
    using that assms by (simp add: nth_append nth_butlast)
  show ?thesis
    using main[OF assms] main[OF len] nth by simp
qed

text \<open>
  The theorem at two segments needing 1 and 70 gallons and one stop at 3.50:
  the total is 3.50, and the 70 gallons of the last leg do not count.
\<close>

theorem total_cost_pairs_by_index_witness:
  "length [segment_near, segment_far] = length [station_hwy] + 1
   \<and> calculate_total_gas_cost [segment_near, segment_far] [station_hwy] = 7 / 2
   \<and> calculate_total_gas_cost (butlast [segment_near, segment_far] @ [segment_near]) [station_hwy]
       = calculate_total_gas_cost [segment_near, segment_far] [station_hwy]"
proof -
  have len: "length [segment_near, segment_far] = length [station_hwy] + 1"
    by simp
  have val: "round2 (7 / 2) = 7 / 2"
    by (simp add: round2_def round_half_even_def)
  show ?thesis
    using total_cost_pairs_by_index[OF len, of segment_near] len
    by (simp add: segment_near_def station_hwy_def val)
qed

subsection \<open>Cheapest stop\<close>

lemma foldl_keep_first_min:
  fixes key :: "'a \<Rightarrow> real"
  shows "\<exists>i<length (b # xs).
      (b # xs) ! i = foldl (\<lambda>best x. if key x < key best then x else best) b xs
      \<and> (\<forall>j<length (b # xs).
            key (foldl (\<lambda>best x. if key x < key best then x else best) b xs) \<le> key ((b # xs) ! j))
      \<and> (\<forall>j<i. key (foldl (\<lambda>best x. if key x < key best then x else best) b xs)
                   < key ((b # xs) ! j))"
proof (induction xs rule: rev_induct)
  case Nil
  show ?case by simp
next
  case (snoc x xs)
  let ?f = "\<lambda>best x. if key x < key best then x else best"
  let ?m = "foldl ?f b xs"
  from snoc obtain i where i: "i < length (b # xs)" "(b # xs) ! i = ?m"
    and le: "\<forall>j<length (b # xs). key ?m \<le> key ((b # xs) ! j)"
    and lt: "\<forall>j<i. key ?m < key ((b # xs) ! j)"
    by blast
  have nth_old: "(b # xs @ [x]) ! j = (b # xs) ! j" if "j < length (b # xs)" for j
    using that by (metis append_Cons nth_append)
  have nth_new: "(b # xs @ [x]) ! length (b # xs) = x"
    by (metis append_Cons nth_append_length)
  show ?case
  proof (cases "key x < key ?m")
    case True
    then have res: "foldl ?f b (xs @ [x]) = x"
      by simp
    have "\<forall>j<length (b # xs @ [x]). key x \<le> key ((b # xs @ [x]) ! j)"
    proof (intro allI impI)
      fix j assume "j < length (b # xs @ [x])"
      then consider "j < length (b # xs)" | "j = length (b # xs)" by fastforce
      then show "key x \<le> key ((b # xs @ [x]) ! j)"
      proof cases
        case 1
        then show ?thesis using le True nth_old[OF 1] by fastforce
      next
        case 2
        then show ?thesis using nth_new by simp
      qed
    qed
    moreover have "\<forall>j<length (b # xs). key x < key ((b # xs @ [x]) ! j)"
      using le True nth_old by fastforce
    ultimately show ?thesis
      unfolding res using nth_new by (intro exI[of _ "length (b # xs)"]) simp
  next
    case False
    then have res: "foldl ?f b (xs @ [x]) = ?m"
      by simp
    have "\<forall>j<length (b # xs @ [x]). key ?m \<le> key ((b # xs @ [x]) ! j)"
    proof (intro allI impI)
      fix j assume "j < length (b # xs @ [x])"
      then consider "j < length (b # xs)" | "j = length (b # xs)" by fastforce
      then show "key ?m \<le> key ((b # xs @ [x]) ! j)"
      proof cases
        case 1
        then show ?thesis using le nth_old[OF 1] by fastforce
      next
        case 2
        then show ?thesis using nth_new False by simp
      qed
    qed
    moreover have "\<forall>j<i. key ?m < key ((b # xs @ [x]) ! j)"
      using lt i(1) nth_old by fastforce
    moreover have "(b # xs @ [x]) ! i = ?m" using i nth_old by simp
    moreover have "i < length (b # xs @ [x])" using i(1) by simp
    ultimately show ?thesis unfolding res by blast
  qed
qed

lemma min_step_as_key:
  "min_step h = (\<lambda>best r. if price_per_gallon (h r) < price_per_gallon (h best) then r else best)"
  by (intro ext) (simp add: min_step_def)

text \<open>
  Claim C5.  \<open>select_cheapest_gas_stop\<close> returns nothing exactly for the
  empty candidate list.  Otherwise it returns a candidate whose price, after
  the discount pass, is at most the price of every candidate, and every
  candidate before it in the list is strictly more expensive: ties go to the
  first encountered.
\<close>

theorem select_cheapest_first_minimum:
  "(case select_cheapest_gas_stop cands h of
      (None, h') \<Rightarrow> cands = []
    | (Some best, h') \<Rightarrow>
        (\<exists>i<length cands. cands ! i = best
           \<and> (\<forall>j<length cands.
                 price_per_gallon (h' best) \<le> price_per_gallon (h' (cands ! j)))
           \<and> (\<forall>j<i. price_per_gallon (h' best) < price_per_gallon (h' (cands ! j)))))
   \<and> (cands = [] \<longrightarrow> fst (select_cheapest_gas_stop cands h) = None)"
proof (cases cands)
  case Nil
  then show ?thesis by (simp add: select_cheapest_gas_stop_def min_by_price_def)
next
  case (Cons b xs)
  show ?thesis
    unfolding Cons
    using foldl_keep_first_min[of b xs "\<lambda>r. price_per_gallon (foldl apply_bonus h (b # xs) r)"]
    by (simp add: select_cheapest_gas_stop_def min_by_price_def Let_def min_step_as_key)
qed

text \<open>
  The theorem at the candidate list (local station, highway station): the
  highway station at 3.50 is discounted to 3.45 and beats the local one at
  3.48; the empty list gives \<open>None\<close>.
\<close>

theorem select_cheapest_first_minimum_witness:
  "select_cheapest_gas_stop [1, 0] sample_store
     = (Some 0, snd (select_cheapest_gas_stop [1, 0] sample_store))
   \<and> price_per_gallon (snd (select_cheapest_gas_stop [1, 0] sample_store) 0)
       \<le> price_per_gallon (snd (select_cheapest_gas_stop [1, 0] sample_store) 1)
   \<and> fst (select_cheapest_gas_stop [] sample_store) = None"
proof -
  have "fst (select_cheapest_gas_stop [1, 0] sample_store) = Some 0"
    by code_simp
  then have ev: "select_cheapest_gas_stop [1, 0] sample_store
     = (Some 0, snd (select_cheapest_gas_stop [1, 0] sample_store))"
    by (simp add: prod_eq_iff)
  have "\<forall>j<length [1, 0 :: nat].
     price_per_gallon (snd (select_cheapest_gas_stop [1, 0] sample_store) 0)
       \<le> price_per_gallon (snd (select_cheapest_gas_stop [1, 0] sample_store) ([1, 0] ! j))"
    using select_cheapest_first_minimum[of "[1, 0]" sample_store]
    by (subst (asm) ev) auto
  then have "price_per_gallon (snd (select_cheapest_gas_stop [1, 0] sample_store) 0)
       \<le> price_per_gallon (snd (select_cheapest_gas_stop [1, 0] sample_store) 1)"
    by auto
  moreover have "fst (select_cheapest_gas_stop [] sample_store) = None"
    using select_cheapest_first_minimum[of "[]" sample_store] by blast
  ultimately show ?thesis using ev by blast
qed

subsection \<open>The discount is written into the shared records\<close>

lemma foldl_apply_bonus:
  "foldl apply_bonus h cs r =
     (if sublist ''I-'' (address (h r))
      then (h r)\<lparr>price_per_gallon :=
              price_per_gallon (h r) - HIGHWAY_BONUS * real (count_list cs r)\<rparr>
      else h r)"
proof (induction cs arbitrary: h)
  case Nil
  show ?case by simp
next
  case (Cons c cs)
  have "foldl apply_bonus h (c # cs) r = foldl apply_bonus (apply_bonus h c) cs r"
    by simp
  also have "\<dots> = (if sublist ''I-'' (address (apply_bonus h c r))
      then (apply_bonus h c r)\<lparr>price_per_gallon :=
              price_per_gallon (apply_bonus h c r) - HIGHWAY_BONUS * real (count_list cs r)\<rparr>
      else apply_bonus h c r)"
    by (rule Cons.IH)
  also have "\<dots> = (if sublist ''I-'' (address (h r))
      then (h r)\<lparr>price_per_gallon :=
              price_per_gallon (h r) - HIGHWAY_BONUS * real (count_list (c # cs) r)\<rparr>
      else h r)"
    by (simp add: apply_bonus_def algebra_simps)
  finally show ?case .
qed

lemma count_list_distinct:
  "distinct xs \<Longrightarrow> x \<in> set xs \<Longrightarrow> count_list xs x = 1"
  by (induction xs) auto

lemma nearby_stops_coordinates:
  "(\<And>r. coordinates (h' r) = coordinates (h r))
     \<Longrightarrow> nearby_stops g h' f w = nearby_stops g h f w"
  by (simp add: nearby_stops_def)

lemma waypoint_step_simps:
  "fst (waypoint_step g f (opt, near, h) w)
     = (case min_by_price (foldl apply_bonus h (nearby_stops g h f w)) (nearby_stops g h f w) of
          Some b \<Rightarrow> opt @ [b] | None \<Rightarrow> opt)"
  "fst (snd (waypoint_step g f (opt, near, h) w)) = near @ [nearby_stops g h f w]"
  "snd (snd (waypoint_step g f (opt, near, h) w)) = foldl apply_bonus h (nearby_stops g h f w)"
  by (simp_all add: waypoint_step_def select_cheapest_gas_stop_def Let_def)

lemma waypoint_loop_effect:
  "fst (snd (foldl (waypoint_step g f) (opt, near, h) wps))
      = near @ map (nearby_stops g h f) wps
   \<and> (\<forall>r. snd (snd (foldl (waypoint_step g f) (opt, near, h) wps)) r =
        (if sublist ''I-'' (address (h r))
         then (h r)\<lparr>price_per_gallon :=
                 price_per_gallon (h r) - HIGHWAY_BONUS * real (sum_list (map (\<lambda>w. count_list (nearby_stops g h f w) r) wps))\<rparr>
         else h r))"
proof (induction wps arbitrary: opt near h)
  case Nil
  show ?case by simp
next
  case (Cons w wps)
  obtain opt1 near1 h1 where step: "waypoint_step g f (opt, near, h) w = (opt1, near1, h1)"
    by (cases "waypoint_step g f (opt, near, h) w") auto
  have near1: "near1 = near @ [nearby_stops g h f w]"
    using waypoint_step_simps(2)[of g f opt near h w] step by simp
  have h1: "h1 = foldl apply_bonus h (nearby_stops g h f w)"
    using waypoint_step_simps(3)[of g f opt near h w] step by simp
  have h1r: "h1 r = (if sublist ''I-'' (address (h r))
      then (h r)\<lparr>price_per_gallon :=
              price_per_gallon (h r) - HIGHWAY_BONUS * real (count_list (nearby_stops g h f w) r)\<rparr>
      else h r)" for r
    unfolding h1 by (rule foldl_apply_bonus)
  have coords: "coordinates (h1 r) = coordinates (h r)" for r
    by (simp add: h1r)
  have same_near: "nearby_stops g h1 f = nearby_stops g h f"
    using nearby_stops_coordinates[of h1 h g f] coords by blast
  note IH = Cons.IH[of opt1 near1 h1]
  have fold: "foldl (waypoint_step g f) (opt, near, h) (w # wps)
                = foldl (waypoint_step g f) (opt1, near1, h1) wps"
    by (simp add: step)
  show ?case
    unfolding fold
  proof (intro conjI allI)
    show "fst (snd (foldl (waypoint_step g f) (opt1, near1, h1) wps))
            = near @ map (nearby_stops g h f) (w # wps)"
      using IH by (simp add: near1 same_near)
  next
    fix r
    have "snd (snd (foldl (waypoint_step g f) (opt1, near1, h1) wps)) r =
        (if sublist ''I-'' (address (h1 r))
         then (h1 r)\<lparr>price_per_gallon :=
                 price_per_gallon (h1 r) - HIGHWAY_BONUS * real (sum_list (map (\<lambda>w. count_list (nearby_stops g h1 f w) r) wps))\<rparr>
         else h1 r)"
      using IH by blast
    also have "\<dots> = (if sublist ''I-'' (address (h r))
         then (h r)\<lparr>price_per_gallon :=
                 price_per_gallon (h r) - HIGHWAY_BONUS * real (sum_list (map (\<lambda>w. count_list (nearby_stops g h f w) r) (w # wps)))\<rparr>
         else h r)"
      by (simp add: h1r same_near algebra_simps)
    finally show "snd (snd (foldl (waypoint_step g f) (opt1, near1, h1) wps)) r =
        (if sublist ''I-'' (address (h r))
         then (h r)\<lparr>price_per_gallon :=
                 price_per_gallon (h r) - HIGHWAY_BONUS * real (sum_list (map (\<lambda>w. count_list (nearby_stops g h f w) r) (w # wps)))\<rparr>
         else h r)" .
  qed
qed

lemma get_gas_stops_fst: "fst (get_gas_stops data p) = GAS_STOPS (snd (get_gas_stops data p))"
  by (simp add: get_gas_stops_def Let_def)

lemma get_nearby_ok:
  assumes "length (bbox r) = 4"
  shows "\<exists>f. get_nearby_gas_stops r data p = Inr (f, snd (get_gas_stops data p))
             \<and> set f \<subseteq> set (GAS_STOPS (snd (get_gas_stops data p)))"
proof -
  from assms obtain a b c d where bb: "bbox r = [a, b, c, d]"
    by (auto simp: length_Suc_conv numeral_eq_Suc)
  show ?thesis
    using get_gas_stops_fst[of data p]
    by (cases "get_gas_stops data p") (auto simp: get_nearby_gas_stops_def bb)
qed

lemma get_nearby_Inr:
  assumes "get_nearby_gas_stops r data p = Inr (f, p1)"
  shows "p1 = snd (get_gas_stops data p) \<and> set f \<subseteq> set (GAS_STOPS p1)"
proof -
  have "length (bbox r) = 4"
    using assms
    by (auto simp: get_nearby_gas_stops_def split: list.splits)
  from get_nearby_ok[OF this, of data p] assms show ?thesis by auto
qed

lemma find_optimal_effect:
  assumes "find_optimal_gas_stops g wps r data p = Inr ((opt, near), p')"
  shows "GAS_STOPS p' = GAS_STOPS (snd (get_gas_stops data p))
    \<and> (\<forall>l\<in>set near. set l \<subseteq> set (GAS_STOPS p'))
    \<and> length near = length wps
    \<and> (\<forall>ref. objects p' ref =
          (if sublist ''I-'' (address (objects (snd (get_gas_stops data p)) ref))
           then (objects (snd (get_gas_stops data p)) ref)\<lparr>price_per_gallon :=
                   price_per_gallon (objects (snd (get_gas_stops data p)) ref)
                   - HIGHWAY_BONUS * real (sum_list (map (\<lambda>l. count_list l ref) near))\<rparr>
           else objects (snd (get_gas_stops data p)) ref))"
proof -
  from assms obtain f p1 where nb: "get_nearby_gas_stops r data p = Inr (f, p1)"
    by (auto simp: find_optimal_gas_stops_def split: sum.splits)
  have p1: "p1 = snd (get_gas_stops data p)" and sub: "set f \<subseteq> set (GAS_STOPS p1)"
    using get_nearby_Inr[OF nb] by auto
  obtain o2 n2 h2 where loop: "foldl (waypoint_step g f) ([], [], objects p1) wps = (o2, n2, h2)"
    by (cases "foldl (waypoint_step g f) ([], [], objects p1) wps") auto
  have res: "opt = o2" "near = n2" "p' = p1\<lparr>objects := h2\<rparr>"
    using assms by (simp_all add: find_optimal_gas_stops_def nb loop)
  have eff: "n2 = map (nearby_stops g (objects p1) f) wps"
     "\<And>ref. h2 ref = (if sublist ''I-'' (address (objects p1 ref))
         then (objects p1 ref)\<lparr>price_per_gallon :=
                 price_per_gallon (objects p1 ref) - HIGHWAY_BONUS
                   * real (sum_list (map (\<lambda>w. count_list (nearby_stops g (objects p1) f w) ref) wps))\<rparr>
         else objects p1 ref)"
    using waypoint_loop_effect[of g f "[]" "[]" "objects p1" wps] loop by simp_all
  have cnt: "sum_list (map (\<lambda>l. count_list l ref) near)
      = sum_list (map (\<lambda>w. count_list (nearby_stops g (objects p1) f w) ref) wps)" for ref
    unfolding res(2) eff(1) by (simp add: comp_def)
  have "\<forall>l\<in>set near. set l \<subseteq> set (GAS_STOPS p')"
    unfolding res(2) eff(1) res(3) using sub by (auto simp: nearby_stops_def)
  moreover have "GAS_STOPS p' = GAS_STOPS (snd (get_gas_stops data p))"
    by (simp add: res(3) p1)
  moreover have "length near = length wps" by (simp add: res(2) eff(1))
  moreover have "\<forall>ref. objects p' ref =
          (if sublist ''I-'' (address (objects (snd (get_gas_stops data p)) ref))
           then (objects (snd (get_gas_stops data p)) ref)\<lparr>price_per_gallon :=
                   price_per_gallon (objects (snd (get_gas_stops data p)) ref)
                   - HIGHWAY_BONUS * real (sum_list (map (\<lambda>l. count_list l ref) near))\<rparr>
           else objects (snd (get_gas_stops data p)) ref)"
    unfolding cnt using eff(2) by (simp add: res(3) p1)
  ultimately show ?thesis by blast
qed

lemma optimize_route_Inr:
  assumes "optimize_route g r data p = Inr (res, p')"
  shows "\<exists>wps opt. calculate_waypoints g r = Inr wps
     \<and> find_optimal_gas_stops g wps r data p = Inr ((opt, nearby_stations res), p')
     \<and> gas_stops res = opt
     \<and> calculate_route_segments g r (map (objects p') opt) = Inr (segments res)
     \<and> total_gas_cost res = calculate_total_gas_cost (segments res) (map (objects p') opt)"
  using assms
  by (auto simp: optimize_route_def split: sum.splits prod.splits)

text \<open>
  Claim C10.  After \<open>select_cheapest_gas_stop\<close>, every record whose address
  contains \<open>"I-"\<close> has lost \<open>HIGHWAY_BONUS\<close> once per occurrence in the
  candidate list, whether or not it is the returned stop, and nothing else in
  the store has changed; in a candidate list without repetition that is
  exactly one \<open>HIGHWAY_BONUS\<close>.  After a run of the pipeline the global
  \<open>GAS_STOPS\<close> is the list that \<open>get_gas_stops\<close> returned, every per-waypoint
  list of the result consists of references from it, and each highway record
  of the store carries one reduction for every occurrence in those lists.
\<close>

theorem discount_written_to_shared_records:
  "(\<forall>ref. snd (select_cheapest_gas_stop cands h) ref =
       (if sublist ''I-'' (address (h ref))
        then (h ref)\<lparr>price_per_gallon :=
                price_per_gallon (h ref) - HIGHWAY_BONUS * real (count_list cands ref)\<rparr>
        else h ref))
   \<and> (distinct cands \<longrightarrow>
         (\<forall>ref\<in>set cands. sublist ''I-'' (address (h ref)) \<longrightarrow>
            price_per_gallon (snd (select_cheapest_gas_stop cands h) ref)
              = price_per_gallon (h ref) - HIGHWAY_BONUS))
   \<and> (optimize_route g r data p = Inr (res, p') \<longrightarrow>
         GAS_STOPS p' = GAS_STOPS (snd (get_gas_stops data p))
         \<and> (\<forall>l\<in>set (nearby_stations res). set l \<subseteq> set (GAS_STOPS p'))
         \<and> (\<forall>ref. objects p' ref =
              (if sublist ''I-'' (address (objects (snd (get_gas_stops data p)) ref))
               then (objects (snd (get_gas_stops data p)) ref)\<lparr>price_per_gallon :=
                       price_per_gallon (objects (snd (get_gas_stops data p)) ref)
                       - HIGHWAY_BONUS
                         * real (sum_list (map (\<lambda>l. count_list l ref) (nearby_stations res)))\<rparr>
               else objects (snd (get_gas_stops data p)) ref)))"
proof (intro conjI impI)
  show all: "\<forall>ref. snd (select_cheapest_gas_stop cands h) ref =
       (if sublist ''I-'' (address (h ref))
        then (h ref)\<lparr>price_per_gallon :=
                price_per_gallon (h ref) - HIGHWAY_BONUS * real (count_list cands ref)\<rparr>
        else h ref)"
    by (simp add: select_cheapest_gas_stop_def Let_def foldl_apply_bonus)
  show "\<forall>ref\<in>set cands. sublist ''I-'' (address (h ref)) \<longrightarrow>
            price_per_gallon (snd (select_cheapest_gas_stop cands h) ref)
              = price_per_gallon (h ref) - HIGHWAY_BONUS" if "distinct cands"
    using that all by (simp add: count_list_distinct)
next
  assume run: "optimize_route g r data p = Inr (res, p')"
  then obtain wps opt where
    fo: "find_optimal_gas_stops g wps r data p = Inr ((opt, nearby_stations res), p')"
    using optimize_route_Inr by blast
  note eff = find_optimal_effect[OF fo]
  show "GAS_STOPS p' = GAS_STOPS (snd (get_gas_stops data p))" using eff by blast
  show "\<forall>l\<in>set (nearby_stations res). set l \<subseteq> set (GAS_STOPS p')" using eff by blast
  show "\<forall>ref. objects p' ref =
              (if sublist ''I-'' (address (objects (snd (get_gas_stops data p)) ref))
               then (objects (snd (get_gas_stops data p)) ref)\<lparr>price_per_gallon :=
                       price_per_gallon (objects (snd (get_gas_stops data p)) ref)
                       - HIGHWAY_BONUS
                         * real (sum_list (map (\<lambda>l. count_list l ref) (nearby_stations res)))\<rparr>
               else objects (snd (get_gas_stops data p)) ref)" using eff by blast
qed

text \<open>
  The theorem at the two sample stations and the 600-mile route: the
  highway station, a candidate at the one waypoint, is left at 3.45 in the
  catalog, the local one at 3.48.
\<close>

theorem discount_written_to_shared_records_witness:
  "distinct [0, 1 :: nat]
   \<and> price_per_gallon (snd (select_cheapest_gas_stop [0, 1] sample_store) 0)
       = price_per_gallon (sample_store 0) - HIGHWAY_BONUS
   \<and> (case optimize_route sample_geodesic route_one [station_hwy, station_local] fresh_process of
         Inl e \<Rightarrow> False
       | Inr (res, p') \<Rightarrow>
           nearby_stations res = [[0, 1]] \<and> GAS_STOPS p' = [0, 1]
           \<and> price_per_gallon (objects p' 0) = 345 / 100
           \<and> price_per_gallon (objects p' 1) = 348 / 100)
   \<and> GAS_STOPS (snd (projr (optimize_route sample_geodesic route_one
                               [station_hwy, station_local] fresh_process)))
       = GAS_STOPS (snd (get_gas_stops [station_hwy, station_local] fresh_process))"
proof -
  let ?X = "optimize_route sample_geodesic route_one [station_hwy, station_local] fresh_process"
  note inst = discount_written_to_shared_records[of "[0, 1]" sample_store sample_geodesic route_one
      "[station_hwy, station_local]" fresh_process "fst (projr ?X)" "snd (projr ?X)"]
  have d: "distinct [0, 1 :: nat]" by simp
  have hw: "sublist ''I-'' (address (sample_store 0))" by code_simp
  have sel: "price_per_gallon (snd (select_cheapest_gas_stop [0, 1] sample_store) 0)
       = price_per_gallon (sample_store 0) - HIGHWAY_BONUS"
    using inst d hw by simp
  have ev: "(case ?X of
         Inl e \<Rightarrow> False
       | Inr (res, p') \<Rightarrow>
           nearby_stations res = [[0, 1]] \<and> GAS_STOPS p' = [0, 1]
           \<and> price_per_gallon (objects p' 0) = 345 / 100
           \<and> price_per_gallon (objects p' 1) = 348 / 100)"
    by code_simp
  then have run: "?X = Inr (fst (projr ?X), snd (projr ?X))"
    by (cases ?X) auto
  have "GAS_STOPS (snd (projr ?X))
       = GAS_STOPS (snd (get_gas_stops [station_hwy, station_local] fresh_process))"
    using inst run by blast
  then show ?thesis using d sel ev by blast
qed

text \<open>
  Claim C2 says that no station is discounted more than once within a run.
  On the 1200-mile route both waypoints snap to the first vertex; the highway
  station there is a candidate at both, and one run reduces its price twice.
\<close>

theorem highway_discount_applied_twice_in_one_run:
  "(case optimize_route sample_geodesic route_two [station_hwy, station_local] fresh_process of
      Inl e \<Rightarrow> False
    | Inr (res, p') \<Rightarrow>
        nearby_stations res = [[0, 1], [0, 1]]
        \<and> gas_stops res = [0, 0]
        \<and> price_per_gallon (objects p' 0) = price_per_gallon station_hwy - 2 * HIGHWAY_BONUS
        \<and> total_gas_cost res = 68 / 10)"
  by code_simp

text \<open>
  Claim C3 says that two runs on the same route and catalog return equal
  results.  The second run in the same process starts from the records the
  first one reduced, and returns a cheaper stop and a lower total.
\<close>

theorem second_run_differs_from_first:
  "(case optimize_route sample_geodesic route_one [station_hwy, station_local] fresh_process of
      Inl e \<Rightarrow> False
    | Inr (res1, p1) \<Rightarrow>
        (case optimize_route sample_geodesic route_one [station_hwy, station_local] p1 of
           Inl e \<Rightarrow> False
         | Inr (res2, p2) \<Rightarrow>
             gas_stops res1 = [0] \<and> gas_stops res2 = [0]
             \<and> total_gas_cost res1 = 345 / 100 \<and> total_gas_cost res2 = 340 / 100
             \<and> map price_per_gallon (chosen_stops p1 res1) = [345 / 100]
             \<and> map price_per_gallon (chosen_stops p2 res2) = [340 / 100]))"
  by code_simp

subsection \<open>Nearest route point\<close>

lemma closest_fold_as_key:
  "foldl (closest_step g t pts) (b, Some (g t (pts ! b))) cs =
     (let r = foldl (\<lambda>best i. if g t (pts ! i) < g t (pts ! best) then i else best) b (map snd cs)
      in (r, Some (g t (pts ! r))))"
proof (induction cs arbitrary: b)
  case Nil
  show ?case by simp
next
  case (Cons c cs)
  show ?case
  proof (cases "g t (pts ! snd c) < g t (pts ! b)")
    case True
    then have "closest_step g t pts (b, Some (g t (pts ! b))) c = (snd c, Some (g t (pts ! snd c)))"
      by (simp add: closest_step_def)
    then show ?thesis using True Cons.IH[of "snd c"] by simp
  next
    case False
    then have "closest_step g t pts (b, Some (g t (pts ! b))) c = (b, Some (g t (pts ! b)))"
      by (simp add: closest_step_def)
    then show ?thesis using False Cons.IH[of b] by simp
  qed
qed

lemma find_closest_Cons:
  assumes "top_candidates t pts = c # cs"
  shows "find_closest_route_point_index g t pts =
     foldl (\<lambda>best i. if g t (pts ! i) < g t (pts ! best) then i else best) (snd c) (map snd cs)"
proof -
  have "closest_step g t pts (0, None) c = (snd c, Some (g t (pts ! snd c)))"
    by (simp add: closest_step_def)
  then show ?thesis
    unfolding find_closest_route_point_index_def assms
    by (simp add: closest_fold_as_key Let_def)
qed

lemma length_candidates: "length (candidates t pts) = length pts"
  by (simp add: candidates_def)

lemma candidates_nth:
  "i < length pts \<Longrightarrow> candidates t pts ! i = (euclidean_dist_squared t (pts ! i), i)"
  by (simp add: candidates_def nth_enumerate_eq)

lemma map_snd_candidates: "map snd (candidates t pts) = [0..<length pts]"
  by (rule nth_equalityI) (simp_all add: length_candidates candidates_nth)

lemma set_candidates:
  "set (candidates t pts) = (\<lambda>i. (euclidean_dist_squared t (pts ! i), i)) ` {..<length pts}"
proof -
  have "set (candidates t pts) = (\<lambda>i. candidates t pts ! i) ` {..<length pts}"
    by (auto simp: set_conv_nth length_candidates)
  also have "\<dots> = (\<lambda>i. (euclidean_dist_squared t (pts ! i), i)) ` {..<length pts}"
    by (rule image_cong) (simp_all add: candidates_nth)
  finally show ?thesis .
qed

lemma distinct_candidates: "distinct (candidates t pts)"
proof -
  have "distinct (map snd (candidates t pts))" by (simp add: map_snd_candidates)
  then show ?thesis by (simp add: distinct_map)
qed

lemma length_top_candidates: "length (top_candidates t pts) = min 10 (length pts)"
  by (simp add: top_candidates_def length_candidates min.commute)

lemma sorted_top_candidates: "sorted (top_candidates t pts)"
  by (simp add: top_candidates_def)

lemma set_top_candidates_subset: "set (top_candidates t pts) \<subseteq> set (candidates t pts)"
  unfolding top_candidates_def using set_take_subset[of 10 "sort (candidates t pts)"] by simp

lemma top_candidate_shape:
  assumes "x \<in> set (top_candidates t pts)"
  shows "snd x < length pts \<and> x = (euclidean_dist_squared t (pts ! snd x), snd x)"
proof -
  from assms have "x \<in> set (candidates t pts)"
    using set_top_candidates_subset by blast
  then show ?thesis by (auto simp: set_candidates)
qed

lemma distinct_map_snd_top: "distinct (map snd (top_candidates t pts))"
proof -
  have inj: "inj_on snd (set (candidates t pts))"
    using map_snd_candidates[of t pts] distinct_map[of snd "candidates t pts"]
    by (metis distinct_upt)
  have "distinct (sort (candidates t pts))"
    by (simp add: distinct_candidates)
  moreover have "inj_on snd (set (sort (candidates t pts)))"
    using inj by simp
  ultimately have "distinct (map snd (sort (candidates t pts)))"
    by (simp add: distinct_map)
  then have "distinct (take 10 (map snd (sort (candidates t pts))))"
    by (rule distinct_take)
  then show ?thesis by (simp add: top_candidates_def take_map)
qed

lemma top_before_rest:
  assumes x: "x \<in> set (top_candidates t pts)"
    and y: "y \<in> set (candidates t pts)" "y \<notin> set (top_candidates t pts)"
  shows "x < y"
proof -
  let ?s = "sort (candidates t pts)"
  have split: "?s = take 10 ?s @ drop 10 ?s" by simp
  have "y \<in> set ?s" using y(1) by simp
  then have "y \<in> set (take 10 ?s) \<union> set (drop 10 ?s)"
    by (metis split set_append)
  then have ydrop: "y \<in> set (drop 10 ?s)"
    using y(2) by (simp add: top_candidates_def)
  have "sorted (take 10 ?s @ drop 10 ?s)" by simp
  then have "x \<le> y"
    using x ydrop unfolding sorted_append by (simp add: top_candidates_def)
  moreover have "x \<noteq> y" using x y(2) by blast
  ultimately show ?thesis by simp
qed

lemma top_candidates_all_when_short:
  assumes "length pts \<le> 10"
  shows "set (map snd (top_candidates t pts)) = {..<length pts}"
proof -
  have "top_candidates t pts = sort (candidates t pts)"
    using assms by (simp add: top_candidates_def length_candidates)
  then have "set (map snd (top_candidates t pts)) = set (map snd (candidates t pts))"
    by simp
  then show ?thesis by (simp add: map_snd_candidates atLeast0LessThan)
qed

lemma find_closest_empty: "find_closest_route_point_index g t [] = 0"
  by (simp add: find_closest_route_point_index_def top_candidates_def candidates_def)

lemma find_closest_in_range:
  assumes "pts \<noteq> []"
  shows "find_closest_route_point_index g t pts < length pts"
proof -
  have "top_candidates t pts \<noteq> []"
    using assms length_top_candidates[of t pts] by (cases pts) auto
  then obtain c cs where top: "top_candidates t pts = c # cs"
    by (cases "top_candidates t pts") auto
  let ?key = "\<lambda>i. g t (pts ! i)"
  obtain i where "i < length (snd c # map snd cs)"
     "(snd c # map snd cs) ! i = find_closest_route_point_index g t pts"
    using foldl_keep_first_min[of "snd c" "map snd cs" ?key] find_closest_Cons[OF top, of g]
    by auto
  then have "find_closest_route_point_index g t pts \<in> set (map snd (top_candidates t pts))"
    unfolding top by (metis list.simps(9) nth_mem)
  then show ?thesis using top_candidate_shape by auto
qed

text \<open>
  Claim C4, amended.  For a non-empty point list, stage 1 keeps
  \<open>min 10 (length pts)\<close> distinct indices, each paired with its squared planar
  difference, in ascending order of (squared difference, index); every index
  left out comes after every index kept in that order; with fewer than ten
  points all indices are kept.  Stage 2 returns a kept index of least
  geodesic distance, and every index met before it in the stage-1 order is
  strictly farther: a geodesic tie goes to the index that stage 1 ranked
  first, which need not be the lowest index.
\<close>

theorem closest_index_two_stage:
  assumes "pts \<noteq> []"
  shows "length (top_candidates t pts) = min 10 (length pts)
    \<and> sorted (top_candidates t pts)
    \<and> distinct (map snd (top_candidates t pts))
    \<and> (\<forall>x\<in>set (top_candidates t pts).
          snd x < length pts \<and> fst x = euclidean_dist_squared t (pts ! snd x))
    \<and> (\<forall>x\<in>set (top_candidates t pts). \<forall>j<length pts.
          j \<notin> set (map snd (top_candidates t pts)) \<longrightarrow>
            fst x < euclidean_dist_squared t (pts ! j)
            \<or> (fst x = euclidean_dist_squared t (pts ! j) \<and> snd x < j))
    \<and> (length pts < 10 \<longrightarrow> set (map snd (top_candidates t pts)) = {..<length pts})
    \<and> (\<exists>k<length (top_candidates t pts).
          find_closest_route_point_index g t pts = snd (top_candidates t pts ! k)
          \<and> (\<forall>j<length (top_candidates t pts).
                g t (pts ! find_closest_route_point_index g t pts)
                  \<le> g t (pts ! snd (top_candidates t pts ! j)))
          \<and> (\<forall>j<k. g t (pts ! find_closest_route_point_index g t pts)
                  < g t (pts ! snd (top_candidates t pts ! j))))"
proof (intro conjI)
  show "length (top_candidates t pts) = min 10 (length pts)"
    by (rule length_top_candidates)
  show "sorted (top_candidates t pts)"
    by (rule sorted_top_candidates)
  show "distinct (map snd (top_candidates t pts))"
    by (rule distinct_map_snd_top)
  show "\<forall>x\<in>set (top_candidates t pts).
          snd x < length pts \<and> fst x = euclidean_dist_squared t (pts ! snd x)"
    using top_candidate_shape by (metis fst_conv)
  show "\<forall>x\<in>set (top_candidates t pts). \<forall>j<length pts.
          j \<notin> set (map snd (top_candidates t pts)) \<longrightarrow>
            fst x < euclidean_dist_squared t (pts ! j)
            \<or> (fst x = euclidean_dist_squared t (pts ! j) \<and> snd x < j)"
  proof (intro ballI allI impI)
    fix x j
    assume x: "x \<in> set (top_candidates t pts)" and j: "j < length pts"
      and out: "j \<notin> set (map snd (top_candidates t pts))"
    let ?y = "(euclidean_dist_squared t (pts ! j), j)"
    have "?y \<in> set (candidates t pts)"
      using j by (auto simp: set_candidates)
    moreover have "?y \<notin> set (top_candidates t pts)"
      using out by force
    ultimately have "x < ?y" using x top_before_rest by blast
    then show "fst x < euclidean_dist_squared t (pts ! j)
            \<or> (fst x = euclidean_dist_squared t (pts ! j) \<and> snd x < j)"
      by (cases x) auto
  qed
  show "length pts < 10 \<longrightarrow> set (map snd (top_candidates t pts)) = {..<length pts}"
    using top_candidates_all_when_short[of pts t] by simp
  show "\<exists>k<length (top_candidates t pts).
          find_closest_route_point_index g t pts = snd (top_candidates t pts ! k)
          \<and> (\<forall>j<length (top_candidates t pts).
                g t (pts ! find_closest_route_point_index g t pts)
                  \<le> g t (pts ! snd (top_candidates t pts ! j)))
          \<and> (\<forall>j<k. g t (pts ! find_closest_route_point_index g t pts)
                  < g t (pts ! snd (top_candidates t pts ! j)))"
  proof -
    have "top_candidates t pts \<noteq> []"
      using assms length_top_candidates[of t pts] by (cases pts) auto
    then obtain c cs where top: "top_candidates t pts = c # cs"
      by (cases "top_candidates t pts") auto
    let ?key = "\<lambda>i. g t (pts ! i)"
    let ?sel = "snd c # map snd cs"
    let ?r = "find_closest_route_point_index g t pts"
    have sel: "?sel = map snd (top_candidates t pts)" by (simp add: top)
    obtain k where k: "k < length ?sel" "?sel ! k = ?r"
      and le: "\<forall>j<length ?sel. ?key ?r \<le> ?key (?sel ! j)"
      and lt: "\<forall>j<k. ?key ?r < ?key (?sel ! j)"
      using foldl_keep_first_min[of "snd c" "map snd cs" ?key] find_closest_Cons[OF top, of g]
      by auto
    have len: "length ?sel = length (top_candidates t pts)" by (simp add: top)
    have nth: "?sel ! j = snd (top_candidates t pts ! j)" if "j < length (top_candidates t pts)" for j
      unfolding sel using that by simp
    show ?thesis
    proof (intro exI[of _ k] conjI allI impI)
      show "k < length (top_candidates t pts)" using k(1) len by simp
      show "?r = snd (top_candidates t pts ! k)" using k nth len by simp
    next
      fix j assume "j < length (top_candidates t pts)"
      then show "?key ?r \<le> g t (pts ! snd (top_candidates t pts ! j))"
        using le nth len by metis
    next
      fix j assume "j < k"
      then show "?key ?r < g t (pts ! snd (top_candidates t pts ! j))"
        using lt nth[of j] k(1) len by force
    qed
  qed
qed

text \<open>
  The theorem at a target on the equator at longitude 179 and the points at
  longitudes -179 and 177: both are kept, the second one first.
\<close>

theorem closest_index_two_stage_witness:
  "[point_E, point_W] \<noteq> []
   \<and> length (top_candidates point_T [point_E, point_W]) = 2
   \<and> map snd (top_candidates point_T [point_E, point_W]) = [1, 0]
   \<and> find_closest_route_point_index sample_geodesic point_T [point_E, point_W] = 1"
proof -
  have ne: "[point_E, point_W] \<noteq> []" by simp
  have "length (top_candidates point_T [point_E, point_W]) = min 10 (length [point_E, point_W])"
    using closest_index_two_stage[OF ne, of point_T sample_geodesic] by blast
  then have "length (top_candidates point_T [point_E, point_W]) = 2" by simp
  moreover have "map snd (top_candidates point_T [point_E, point_W]) = [1, 0]"
    by code_simp
  moreover have "find_closest_route_point_index sample_geodesic point_T [point_E, point_W] = 1"
    by code_simp
  ultimately show ?thesis using ne by blast
qed

text \<open>
  The claim as stated breaks geodesic ties by the lowest original index.  At
  the same input both points are equally far from the target, and the index
  returned is 1, not 0.
\<close>

theorem closest_index_tie_not_lowest_index:
  "sample_geodesic point_T ([point_E, point_W] ! 0) = sample_geodesic point_T ([point_E, point_W] ! 1)
   \<and> find_closest_route_point_index sample_geodesic point_T [point_E, point_W] = 1"
  by code_simp

subsection \<open>Cumulative distances and segments\<close>

lemma cumulative_prefix:
  fixes g :: "Coordinates \<Rightarrow> Coordinates \<Rightarrow> real"
  shows "length (foldl (\<lambda>distances point_index.
              distances @ [last distances + g (pts ! (point_index - 1)) (pts ! point_index)])
           [0] [1..<Suc n]) = Suc n
   \<and> ((\<forall>a b. 0 \<le> g a b) \<longrightarrow> sorted (foldl (\<lambda>distances point_index.
              distances @ [last distances + g (pts ! (point_index - 1)) (pts ! point_index)])
           [0] [1..<Suc n]))"
proof (induction n)
  case 0
  show ?case by simp
next
  case (Suc n)
  let ?f = "\<lambda>distances point_index.
              distances @ [last distances + g (pts ! (point_index - 1)) (pts ! point_index)]"
  let ?c = "foldl ?f [0] [1..<Suc n]"
  have unfold: "foldl ?f [0] [1..<Suc (Suc n)] = ?c @ [last ?c + g (pts ! n) (pts ! Suc n)]"
    by simp
  have len: "length ?c = Suc n" using Suc by blast
  then have ne: "?c \<noteq> []" by auto
  have "sorted (?c @ [last ?c + g (pts ! n) (pts ! Suc n)])" if nn: "\<forall>a b. 0 \<le> g a b"
  proof -
    define c where "c = ?c"
    define d where "d = g (pts ! n) (pts ! Suc n)"
    have s: "sorted c" using Suc nn unfolding c_def by blast
    have cne: "c \<noteq> []" using ne unfolding c_def .
    have d0: "0 \<le> d" using nn unfolding d_def by blast
    have "x \<le> last c + d" if "x \<in> set c" for x
    proof -
      from that obtain i where i: "i < length c" "c ! i = x"
        by (auto simp: in_set_conv_nth)
      have "c ! i \<le> c ! (length c - 1)"
        using s i(1) by (intro sorted_nth_mono) auto
      then have "x \<le> last c" using i(2) cne by (simp add: last_conv_nth)
      then show ?thesis using d0 by linarith
    qed
    then have "sorted (c @ [last c + d])" using s by (simp add: sorted_append)
    then show ?thesis unfolding c_def d_def .
  qed
  then show ?case unfolding unfold using len by simp
qed

lemma length_cumulative:
  "length (calculate_cumulative_distances g pts) = (if pts = [] then 1 else length pts)"
proof (cases pts)
  case Nil
  then show ?thesis by (simp add: calculate_cumulative_distances_def)
next
  case (Cons a as)
  then have "length pts = Suc (length as)" by simp
  then show ?thesis
    unfolding calculate_cumulative_distances_def
    using cumulative_prefix[of g pts "length as"] Cons by simp
qed

lemma sorted_cumulative:
  assumes "\<forall>a b. 0 \<le> g a b"
  shows "sorted (calculate_cumulative_distances g pts)"
proof (cases pts)
  case Nil
  then show ?thesis by (simp add: calculate_cumulative_distances_def)
next
  case (Cons a as)
  then have "length pts = Suc (length as)" by simp
  then show ?thesis
    unfolding calculate_cumulative_distances_def
    using cumulative_prefix[of g pts "length as"] assms by simp
qed

lemma find_closest_lt_cumulative:
  "find_closest_route_point_index g t pts < length (calculate_cumulative_distances g pts)"
proof (cases "pts = []")
  case True
  then show ?thesis by (simp add: find_closest_empty length_cumulative)
next
  case False
  then show ?thesis using find_closest_in_range[OF False, of g t] by (simp add: length_cumulative)
qed

lemma segment_distance_ok:
  "calculate_route_segment_distance g a b pts (calculate_cumulative_distances g pts)
     = Inr (calculate_cumulative_distances g pts ! find_closest_route_point_index g b pts
            - calculate_cumulative_distances g pts ! find_closest_route_point_index g a pts
            + DETOUR_ALLOWANCE)"
  by (simp add: calculate_route_segment_distance_def Let_def find_closest_lt_cumulative)

lemma make_segment_ok:
  "make_segment g r (calculate_cumulative_distances g (geometry r)) a b
     = Inr \<lparr>start_coordinates = a, end_coordinates = b,
            distance = round2 (calculate_cumulative_distances g (geometry r)
                                 ! find_closest_route_point_index g b (geometry r)
                               - calculate_cumulative_distances g (geometry r)
                                 ! find_closest_route_point_index g a (geometry r)
                               + DETOUR_ALLOWANCE),
            gas_needed_gallons = round2 ((calculate_cumulative_distances g (geometry r)
                                 ! find_closest_route_point_index g b (geometry r)
                               - calculate_cumulative_distances g (geometry r)
                                 ! find_closest_route_point_index g a (geometry r)
                               + DETOUR_ALLOWANCE) / GAS_EFFICIENCY)\<rparr>"
  by (simp add: make_segment_def segment_distance_ok)

lemma segments_loop_ok:
  "segments_loop g r (calculate_cumulative_distances g (geometry r)) ap is acc
     = Inr (acc @ map (\<lambda>i. projr (make_segment g r (calculate_cumulative_distances g (geometry r))
                                (ap ! i) (ap ! (i + 1)))) is)"
proof (induction "is" arbitrary: acc)
  case Nil
  show ?case by simp
next
  case (Cons i "is")
  show ?case
    by (simp add: make_segment_ok Cons.IH)
qed

lemma calculate_route_segments_ok:
  "calculate_route_segments g r stops
     = Inr (map (\<lambda>i. projr (make_segment g r (calculate_cumulative_distances g (geometry r))
                               (all_points r stops ! i) (all_points r stops ! (i + 1))))
              [0..<length stops + 1])"
  by (simp add: calculate_route_segments_def segments_loop_ok all_points_def)

text \<open>
  Claim C8.  \<open>calculate_route_segments\<close> never raises, returns one more segment
  than there are stops, and segment \<open>i\<close> runs from entry \<open>i\<close> to entry \<open>i + 1\<close>
  of the chain origin, stop coordinates, destination.
\<close>

theorem segments_chain:
  "\<exists>segs. calculate_route_segments g r stops = Inr segs
      \<and> length segs = length stops + 1
      \<and> (\<forall>i<length segs.
            start_coordinates (segs ! i)
              = (origin_coordinates r # map coordinates stops @ [destination_coordinates r]) ! i
          \<and> end_coordinates (segs ! i)
              = (origin_coordinates r # map coordinates stops @ [destination_coordinates r]) ! (i + 1))"
proof -
  have ap: "all_points r stops = origin_coordinates r # map coordinates stops @ [destination_coordinates r]"
    by (simp add: all_points_def)
  show ?thesis
    unfolding calculate_route_segments_ok ap[symmetric]
    by (simp add: make_segment_ok del: upt_Suc)
qed

text \<open>
  The theorem at the 600-mile route with the highway station as the only
  stop: two segments, the second from the station to the destination.
\<close>

theorem segments_chain_witness:
  "calculate_route_segments sample_geodesic route_one [station_hwy]
     = Inr [segment_near, segment_far]
   \<and> length [segment_near, segment_far] = length [station_hwy] + 1
   \<and> start_coordinates ([segment_near, segment_far] ! 1)
       = (origin_coordinates route_one # map coordinates [station_hwy]
            @ [destination_coordinates route_one]) ! 1
   \<and> end_coordinates ([segment_near, segment_far] ! 1)
       = (origin_coordinates route_one # map coordinates [station_hwy]
            @ [destination_coordinates route_one]) ! (1 + 1)"
proof -
  have run: "calculate_route_segments sample_geodesic route_one [station_hwy]
               = Inr [segment_near, segment_far]"
    by code_simp
  obtain segs where segs: "calculate_route_segments sample_geodesic route_one [station_hwy] = Inr segs"
    and len: "length segs = length [station_hwy] + 1"
    and chain: "\<forall>i<length segs.
            start_coordinates (segs ! i)
              = (origin_coordinates route_one # map coordinates [station_hwy]
                   @ [destination_coordinates route_one]) ! i
          \<and> end_coordinates (segs ! i)
              = (origin_coordinates route_one # map coordinates [station_hwy]
                   @ [destination_coordinates route_one]) ! (i + 1)"
    using segments_chain[of sample_geodesic route_one "[station_hwy]"] by blast
  have eq: "segs = [segment_near, segment_far]"
    using run segs by simp
  have "1 < length segs" using len by simp
  then have "start_coordinates (segs ! 1)
              = (origin_coordinates route_one # map coordinates [station_hwy]
                   @ [destination_coordinates route_one]) ! 1
          \<and> end_coordinates (segs ! 1)
              = (origin_coordinates route_one # map coordinates [station_hwy]
                   @ [destination_coordinates route_one]) ! (1 + 1)"
    using chain by blast
  then show ?thesis using run len unfolding eq by blast
qed

text \<open>
  With a geodesic that is never negative the cumulative table ascends, so a
  segment whose end snaps to a route index not before the one of its start
  meets the hypothesis of the next theorem.
\<close>

lemma forward_index_suffices:
  assumes "\<forall>a b. 0 \<le> g a b" and "i \<le> j"
    and "j < length (calculate_cumulative_distances g pts)"
  shows "calculate_cumulative_distances g pts ! i
           \<le> calculate_cumulative_distances g pts ! j + DETOUR_ALLOWANCE"
proof -
  have "calculate_cumulative_distances g pts ! i \<le> calculate_cumulative_distances g pts ! j"
    using sorted_cumulative[OF assms(1)] assms(2,3) by (simp add: sorted_nth_mono)
  then show ?thesis by (simp add: DETOUR_ALLOWANCE_def)
qed

text \<open>
  Claim C9, amended.  A segment has non-negative distance and non-negative
  fuel whenever the cumulative distance at the route index nearest its start
  is at most the cumulative distance at the route index nearest its end plus
  the detour allowance.
\<close>

theorem segments_nonnegative_when_forward:
  assumes run: "calculate_route_segments g r stops = Inr segs"
    and i: "i < length segs"
    and fwd: "calculate_cumulative_distances g (geometry r)
                ! find_closest_route_point_index g (start_coordinates (segs ! i)) (geometry r)
              \<le> calculate_cumulative_distances g (geometry r)
                ! find_closest_route_point_index g (end_coordinates (segs ! i)) (geometry r)
                + DETOUR_ALLOWANCE"
  shows "0 \<le> RouteSegment.distance (segs ! i) \<and> 0 \<le> gas_needed_gallons (segs ! i)"
proof -
  let ?cum = "calculate_cumulative_distances g (geometry r)"
  let ?ap = "all_points r stops"
  have segs: "segs = map (\<lambda>i. projr (make_segment g r ?cum (?ap ! i) (?ap ! (i + 1))))
              [0..<length stops + 1]"
    using run unfolding calculate_route_segments_ok by simp
  have len: "length segs = length stops + 1" unfolding segs by simp
  have nth: "segs ! i = projr (make_segment g r ?cum (?ap ! i) (?ap ! (i + 1)))"
    unfolding segs using i len by (simp del: upt_Suc)
  let ?d = "?cum ! find_closest_route_point_index g (?ap ! (i + 1)) (geometry r)
            - ?cum ! find_closest_route_point_index g (?ap ! i) (geometry r) + DETOUR_ALLOWANCE"
  have st: "start_coordinates (segs ! i) = ?ap ! i" and en: "end_coordinates (segs ! i) = ?ap ! (i + 1)"
    and dist: "RouteSegment.distance (segs ! i) = round2 ?d"
    and gas: "gas_needed_gallons (segs ! i) = round2 (?d / GAS_EFFICIENCY)"
    unfolding nth by (simp_all add: make_segment_ok)
  have "0 \<le> ?d" using fwd unfolding st en by simp
  moreover then have "0 \<le> ?d / GAS_EFFICIENCY" by (simp add: GAS_EFFICIENCY_def)
  ultimately show ?thesis unfolding dist gas using round2_nonneg by blast
qed

text \<open>
  The theorem at the second segment of the 600-mile route, from the station
  at the first vertex to the destination at the second.
\<close>

theorem segments_nonnegative_when_forward_witness:
  "calculate_route_segments sample_geodesic route_one [station_hwy] = Inr [segment_near, segment_far]
   \<and> 1 < length [segment_near, segment_far]
   \<and> 0 \<le> RouteSegment.distance ([segment_near, segment_far] ! 1)
   \<and> 0 \<le> gas_needed_gallons ([segment_near, segment_far] ! 1)"
proof -
  have run: "calculate_route_segments sample_geodesic route_one [station_hwy]
               = Inr [segment_near, segment_far]"
    by code_simp
  have i: "1 < length [segment_near, segment_far]" by simp
  have fwd: "calculate_cumulative_distances sample_geodesic (geometry route_one)
                ! find_closest_route_point_index sample_geodesic
                    (start_coordinates ([segment_near, segment_far] ! 1)) (geometry route_one)
              \<le> calculate_cumulative_distances sample_geodesic (geometry route_one)
                ! find_closest_route_point_index sample_geodesic
                    (end_coordinates ([segment_near, segment_far] ! 1)) (geometry route_one)
                + DETOUR_ALLOWANCE"
    by code_simp
  show ?thesis
    using segments_nonnegative_when_forward[OF run i fwd] run i by blast
qed

text \<open>
  The claim as stated holds for every list of stops.  With the stops in the
  order far station, near station, the middle segment runs backwards along
  the route: its distance is 0 - 690 + 10 miles.
\<close>

theorem reversed_stops_negative_segment:
  "(case calculate_route_segments sample_geodesic route_one [station_far, station_hwy] of
      Inl e \<Rightarrow> False
    | Inr segs \<Rightarrow>
        length segs = 3
        \<and> RouteSegment.distance (segs ! 1) = - 680
        \<and> gas_needed_gallons (segs ! 1) = - 68)"
  by code_simp

subsection \<open>Waypoints\<close>

lemma find_point_none:
  assumes "\<forall>i. i + 1 < length cum \<longrightarrow> \<not> in_bracket cum t i"
  shows "find_point_at_distance pts cum t = Inr None"
proof -
  have "List.find (in_bracket cum t) [0..<length cum - 1] = None"
    using assms by (auto simp: find_None_iff)
  then show ?thesis by (simp add: find_point_at_distance_def)
qed

lemma find_point_first:
  assumes i: "i + 1 < length cum" and br: "in_bracket cum t i"
    and first: "\<forall>j<i. \<not> in_bracket cum t j"
  shows "List.find (in_bracket cum t) [0..<length cum - 1] = Some i"
proof -
  have "i < length [0..<length cum - 1]" using i by simp
  moreover have "[0..<length cum - 1] ! i = i" using i by simp
  moreover have "\<forall>j<i. \<not> in_bracket cum t ([0..<length cum - 1] ! j)"
    using first i by simp
  ultimately show ?thesis
    using br unfolding find_Some_iff by (intro exI[of _ i]) simp
qed

lemma find_point_some:
  assumes i: "i + 1 < length cum" and br: "in_bracket cum t i"
    and first: "\<forall>j<i. \<not> in_bracket cum t j" and len: "length cum \<le> Suc (length pts)"
  shows "find_point_at_distance pts cum t = Inr (Some (pts ! i))"
proof -
  have "i < length pts" using i len by simp
  then show ?thesis
    using find_point_first[OF i br first] by (simp add: find_point_at_distance_def)
qed

lemma find_point_no_error:
  assumes len: "length cum \<le> Suc (length pts)"
  shows "find_point_at_distance pts cum t \<noteq> Inl e"
proof (cases "List.find (in_bracket cum t) [0..<length cum - 1]")
  case None
  then show ?thesis by (simp add: find_point_at_distance_def)
next
  case (Some i)
  then have "i \<in> set [0..<length cum - 1]"
    by (auto simp: find_Some_iff)
  then have "i < length pts" using len by simp
  then show ?thesis using Some by (simp add: find_point_at_distance_def)
qed

lemma length_cumulative_le: "length (calculate_cumulative_distances g pts) \<le> Suc (length pts)"
  by (simp add: length_cumulative)

lemma loop_count_step:
  assumes "target < (tot :: real)"
  shows "nat \<lceil>(tot - target) / WAYPOINT_INTERVAL\<rceil>
           = Suc (nat \<lceil>(tot - (target + WAYPOINT_INTERVAL)) / WAYPOINT_INTERVAL\<rceil>)"
proof -
  have eq: "(tot - (target + WAYPOINT_INTERVAL)) / WAYPOINT_INTERVAL
              = (tot - target) / WAYPOINT_INTERVAL - 1"
    by (simp add: WAYPOINT_INTERVAL_def field_simps)
  have "0 < (tot - target) / WAYPOINT_INTERVAL"
    using assms by (simp add: WAYPOINT_INTERVAL_def)
  then have "0 < \<lceil>(tot - target) / WAYPOINT_INTERVAL\<rceil>" by linarith
  then show ?thesis unfolding eq by linarith
qed

lemma loop_count_stop:
  assumes "\<not> target < (tot :: real)"
  shows "nat \<lceil>(tot - target) / WAYPOINT_INTERVAL\<rceil> = 0"
proof -
  have "(tot - target) / WAYPOINT_INTERVAL \<le> 0"
    using assms by (simp add: WAYPOINT_INTERVAL_def)
  then have "\<lceil>(tot - target) / WAYPOINT_INTERVAL\<rceil> \<le> 0" by linarith
  then show ?thesis by simp
qed

lemma waypoints_loop_result:
  assumes len: "length cum \<le> Suc (length pts)"
  shows "waypoints_loop pts cum tot target acc =
     Inr (acc @ concat (map (\<lambda>k. emitted pts cum (target + real k * WAYPOINT_INTERVAL))
                          [0..<nat \<lceil>(tot - target) / WAYPOINT_INTERVAL\<rceil>]))"
  using len
proof (induction pts cum tot target acc rule: waypoints_loop.induct)
  case (1 pts cum tot target acc)
  show ?case
  proof (cases "target < tot")
    case False
    show ?thesis
      using False loop_count_stop[OF False]
      by (subst waypoints_loop.simps) simp
  next
    case True
    obtain wp where wp: "find_point_at_distance pts cum target = Inr wp"
      using find_point_no_error[OF "1.prems"]
      by (cases "find_point_at_distance pts cum target") auto
    let ?n = "nat \<lceil>(tot - (target + WAYPOINT_INTERVAL)) / WAYPOINT_INTERVAL\<rceil>"
    let ?acc = "case wp of Some c \<Rightarrow> acc @ [c] | None \<Rightarrow> acc"
    have IH: "waypoints_loop pts cum tot (target + WAYPOINT_INTERVAL) ?acc =
       Inr (?acc @ concat (map (\<lambda>k. emitted pts cum (target + WAYPOINT_INTERVAL + real k * WAYPOINT_INTERVAL))
                          [0..<?n]))"
      using "1.IH"[OF True wp "1.prems"] .
    have acc: "?acc = acc @ emitted pts cum target"
      by (cases wp) (simp_all add: emitted_def wp)
    have upt: "[0..<Suc ?n] = 0 # map Suc [0..<?n]"
      by (simp add: upt_conv_Cons map_Suc_upt del: upt_Suc)
    have shift: "map (\<lambda>k. emitted pts cum (target + real k * WAYPOINT_INTERVAL)) [0..<Suc ?n]
        = emitted pts cum target
          # map (\<lambda>k. emitted pts cum (target + WAYPOINT_INTERVAL + real k * WAYPOINT_INTERVAL)) [0..<?n]"
      unfolding upt by (simp add: comp_def algebra_simps)
    show ?thesis
      unfolding loop_count_step[OF True] shift
      using True wp IH acc
      by (subst waypoints_loop.simps) simp
  qed
qed

text \<open>
  Claim C7.  On the planner's own cumulative table, a target that no bracket
  holds gives \<open>None\<close> and adds no waypoint; a target whose first bracket is
  \<open>[cumulative[i], cumulative[i + 1]]\<close> gives the route point \<open>i\<close> itself, the
  lower end of the bracket.  Beyond the vehicle range \<open>calculate_waypoints\<close>
  never raises and returns, in order, what the targets \<open>k * WAYPOINT_INTERVAL\<close>
  below the route distance add, for \<open>k = 1, 2, ...\<close>.
\<close>

theorem waypoints_snap_to_bracket_start:
  fixes g :: "Coordinates \<Rightarrow> Coordinates \<Rightarrow> real"
  shows "((\<forall>i. i + 1 < length (calculate_cumulative_distances g pts)
            \<longrightarrow> \<not> (calculate_cumulative_distances g pts ! i \<le> t
                     \<and> t \<le> calculate_cumulative_distances g pts ! (i + 1)))
          \<longrightarrow> find_point_at_distance pts (calculate_cumulative_distances g pts) t = Inr None
                \<and> emitted pts (calculate_cumulative_distances g pts) t = [])
    \<and> (\<forall>i. i + 1 < length (calculate_cumulative_distances g pts)
            \<and> calculate_cumulative_distances g pts ! i \<le> t
            \<and> t \<le> calculate_cumulative_distances g pts ! (i + 1)
            \<and> (\<forall>j<i. \<not> (calculate_cumulative_distances g pts ! j \<le> t
                         \<and> t \<le> calculate_cumulative_distances g pts ! (j + 1)))
          \<longrightarrow> find_point_at_distance pts (calculate_cumulative_distances g pts) t
                  = Inr (Some (pts ! i))
                \<and> emitted pts (calculate_cumulative_distances g pts) t = [pts ! i])
    \<and> (VEHICLE_RANGE < Route.distance r
          \<longrightarrow> calculate_waypoints g r =
               Inr (concat (map (\<lambda>k. emitted (geometry r)
                                        (calculate_cumulative_distances g (geometry r))
                                        (real (k + 1) * WAYPOINT_INTERVAL))
                              [0..<nat (\<lceil>Route.distance r / WAYPOINT_INTERVAL\<rceil> - 1)])))"
proof (intro conjI)
  let ?cum = "calculate_cumulative_distances g pts"
  show "(\<forall>i. i + 1 < length ?cum \<longrightarrow> \<not> (?cum ! i \<le> t \<and> t \<le> ?cum ! (i + 1)))
          \<longrightarrow> find_point_at_distance pts ?cum t = Inr None \<and> emitted pts ?cum t = []"
    using find_point_none[of ?cum t pts] by (simp add: in_bracket_def emitted_def)
  show "\<forall>i. i + 1 < length ?cum \<and> ?cum ! i \<le> t \<and> t \<le> ?cum ! (i + 1)
            \<and> (\<forall>j<i. \<not> (?cum ! j \<le> t \<and> t \<le> ?cum ! (j + 1)))
          \<longrightarrow> find_point_at_distance pts ?cum t = Inr (Some (pts ! i))
                \<and> emitted pts ?cum t = [pts ! i]"
  proof (intro allI impI)
    fix i
    assume a: "i + 1 < length ?cum \<and> ?cum ! i \<le> t \<and> t \<le> ?cum ! (i + 1)
            \<and> (\<forall>j<i. \<not> (?cum ! j \<le> t \<and> t \<le> ?cum ! (j + 1)))"
    have "find_point_at_distance pts ?cum t = Inr (Some (pts ! i))"
      using a by (intro find_point_some length_cumulative_le) (simp_all add: in_bracket_def)
    then show "find_point_at_distance pts ?cum t = Inr (Some (pts ! i))
                \<and> emitted pts ?cum t = [pts ! i]"
      by (simp add: emitted_def)
  qed
  show "VEHICLE_RANGE < Route.distance r
          \<longrightarrow> calculate_waypoints g r =
               Inr (concat (map (\<lambda>k. emitted (geometry r)
                                        (calculate_cumulative_distances g (geometry r))
                                        (real (k + 1) * WAYPOINT_INTERVAL))
                              [0..<nat (\<lceil>Route.distance r / WAYPOINT_INTERVAL\<rceil> - 1)]))"
  proof
    assume far: "VEHICLE_RANGE < Route.distance r"
    have cnt: "\<lceil>(Route.distance r - WAYPOINT_INTERVAL) / WAYPOINT_INTERVAL\<rceil>
                = \<lceil>Route.distance r / WAYPOINT_INTERVAL\<rceil> - 1"
    proof -
      have "(Route.distance r - WAYPOINT_INTERVAL) / WAYPOINT_INTERVAL
              = Route.distance r / WAYPOINT_INTERVAL - 1"
        by (simp add: WAYPOINT_INTERVAL_def field_simps)
      then show ?thesis by simp
    qed
    have tgt: "WAYPOINT_INTERVAL + real k * WAYPOINT_INTERVAL = real (k + 1) * WAYPOINT_INTERVAL" for k
      by (simp add: algebra_simps)
    have "calculate_waypoints g r
            = waypoints_loop (geometry r) (calculate_cumulative_distances g (geometry r))
                (Route.distance r) WAYPOINT_INTERVAL []"
      using far by (simp add: calculate_waypoints_def)
    also have "\<dots> = Inr ([] @ concat (map (\<lambda>k. emitted (geometry r)
                       (calculate_cumulative_distances g (geometry r))
                       (WAYPOINT_INTERVAL + real k * WAYPOINT_INTERVAL))
                 [0..<nat \<lceil>(Route.distance r - WAYPOINT_INTERVAL) / WAYPOINT_INTERVAL\<rceil>]))"
      by (rule waypoints_loop_result[OF length_cumulative_le])
    finally show "calculate_waypoints g r =
               Inr (concat (map (\<lambda>k. emitted (geometry r)
                                        (calculate_cumulative_distances g (geometry r))
                                        (real (k + 1) * WAYPOINT_INTERVAL))
                              [0..<nat (\<lceil>Route.distance r / WAYPOINT_INTERVAL\<rceil> - 1)]))"
      unfolding cnt tgt by simp
  qed
qed

lemma sample_cumulative:
  "calculate_cumulative_distances sample_geodesic [point_A, point_C] = [0, 1380]"
  by code_simp

text \<open>
  The theorem at the 1200-mile route, whose table is \<open>[0, 1380]\<close>: the target
  2000 finds nothing, the target 450 finds the first vertex, and the planner
  returns the first vertex twice (targets 450 and 900).
\<close>

theorem waypoints_snap_to_bracket_start_witness:
  "find_point_at_distance [point_A, point_C]
      (calculate_cumulative_distances sample_geodesic [point_A, point_C]) 2000 = Inr None
   \<and> find_point_at_distance [point_A, point_C]
      (calculate_cumulative_distances sample_geodesic [point_A, point_C]) 450
        = Inr (Some ([point_A, point_C] ! 0))
   \<and> VEHICLE_RANGE < Route.distance route_two
   \<and> calculate_waypoints sample_geodesic route_two = Inr [point_A, point_A]"
proof -
  note inst = waypoints_snap_to_bracket_start[of sample_geodesic "[point_A, point_C]" _ route_two]
  have none: "find_point_at_distance [point_A, point_C]
      (calculate_cumulative_distances sample_geodesic [point_A, point_C]) 2000 = Inr None"
  proof -
    have "\<forall>i. i + 1 < length (calculate_cumulative_distances sample_geodesic [point_A, point_C])
            \<longrightarrow> \<not> (calculate_cumulative_distances sample_geodesic [point_A, point_C] ! i \<le> 2000
                     \<and> 2000 \<le> calculate_cumulative_distances sample_geodesic [point_A, point_C] ! (i + 1))"
      unfolding sample_cumulative by simp
    then show ?thesis using inst[of 2000] by blast
  qed
  have some: "find_point_at_distance [point_A, point_C]
      (calculate_cumulative_distances sample_geodesic [point_A, point_C]) 450
        = Inr (Some ([point_A, point_C] ! 0))"
  proof -
    have "0 + 1 < length (calculate_cumulative_distances sample_geodesic [point_A, point_C])
            \<and> calculate_cumulative_distances sample_geodesic [point_A, point_C] ! 0 \<le> 450
            \<and> 450 \<le> calculate_cumulative_distances sample_geodesic [point_A, point_C] ! (0 + 1)
            \<and> (\<forall>j<0. \<not> (calculate_cumulative_distances sample_geodesic [point_A, point_C] ! j \<le> 450
                   \<and> 450 \<le> calculate_cumulative_distances sample_geodesic [point_A, point_C] ! (j + 1)))"
      unfolding sample_cumulative by simp
    then show ?thesis using inst[of 450] by blast
  qed
  have far: "VEHICLE_RANGE < Route.distance route_two"
    by (simp add: route_two_def VEHICLE_RANGE_def)
  have "calculate_waypoints sample_geodesic route_two =
               Inr (concat (map (\<lambda>k. emitted (geometry route_two)
                                        (calculate_cumulative_distances sample_geodesic (geometry route_two))
                                        (real (k + 1) * WAYPOINT_INTERVAL))
                              [0..<nat (\<lceil>Route.distance route_two / WAYPOINT_INTERVAL\<rceil> - 1)]))"
    using inst[of 0] far by blast
  also have "\<dots> = Inr [point_A, point_A]"
    by code_simp
  finally show ?thesis using none some far by blast
qed

subsection \<open>Routes within range\<close>

text \<open>
  Claim C6.  For a route no longer than the vehicle range, with the four
  bounding-box entries a route carries, \<open>calculate_waypoints\<close> returns the
  empty list and the pipeline returns a plan with exactly one segment, no
  chosen stop and total cost 0.
\<close>

theorem short_route_single_segment:
  assumes "Route.distance r \<le> VEHICLE_RANGE" and "length (bbox r) = 4"
  shows "calculate_waypoints g r = Inr []
    \<and> (\<exists>res p'. optimize_route g r data p = Inr (res, p')
          \<and> length (segments res) = 1
          \<and> gas_stops res = []
          \<and> total_gas_cost res = 0)"
proof -
  have wp: "calculate_waypoints g r = Inr []"
    using assms(1) by (simp add: calculate_waypoints_def)
  obtain f where nb: "get_nearby_gas_stops r data p = Inr (f, snd (get_gas_stops data p))"
    using get_nearby_ok[OF assms(2)] by blast
  have fo: "find_optimal_gas_stops g [] r data p
              = Inr (([], []), (snd (get_gas_stops data p))\<lparr>objects := objects (snd (get_gas_stops data p))\<rparr>)"
    by (simp add: find_optimal_gas_stops_def nb)
  obtain segs where segs: "calculate_route_segments g r [] = Inr segs" "length segs = 1"
    using calculate_route_segments_ok[of g r "[]"] by simp
  show ?thesis
    using wp fo segs
    by (simp add: optimize_route_def calculate_total_gas_cost_def)
qed

text \<open>The theorem at the 276-mile route.\<close>

theorem short_route_single_segment_witness:
  "Route.distance route_short \<le> VEHICLE_RANGE \<and> length (bbox route_short) = 4
   \<and> calculate_waypoints sample_geodesic route_short = Inr []
   \<and> (\<exists>res p'. optimize_route sample_geodesic route_short [station_hwy, station_local] fresh_process
                  = Inr (res, p')
          \<and> length (segments res) = 1 \<and> gas_stops res = [] \<and> total_gas_cost res = 0)"
proof -
  have d: "Route.distance route_short \<le> VEHICLE_RANGE"
    by (simp add: route_short_def VEHICLE_RANGE_def)
  have b: "length (bbox route_short) = 4"
    by (simp add: route_short_def)
  show ?thesis
    using short_route_single_segment[OF d b, of sample_geodesic "[station_hwy, station_local]" fresh_process]
      d b by blast
qed

end
